theory Spec2Isabelle
  imports Main "HOL-Library.Product_Lexorder"
begin

section \<open>Python strings and the string primitives used by seo_fix_site.py\<close>

text \<open>
  A Python \<^verbatim>\<open>str\<close> is a sequence of Unicode code points and \<^verbatim>\<open>len\<close>
  counts code points, so a string is modelled as the list of its code points (integers,
  as \<^verbatim>\<open>ord\<close> gives them). String literals of the source are written
  \<open>str ''...''\<close>. Python integers are \<open>int\<close>.
\<close>

type_synonym codepoint = int
type_synonym pystr = "codepoint list"

definition str :: "string \<Rightarrow> pystr" where
  "str s = map of_char s"

definition len :: "pystr \<Rightarrow> int" where
  "len s = int (length s)"

text \<open>
  \<^verbatim>\<open>str.strip()\<close> and the regular expression class \<^verbatim>\<open>\s\<close> (on a \<^verbatim>\<open>str\<close> pattern) both
  use CPython's \<^verbatim>\<open>Py_UNICODE_ISSPACE\<close>: U+0009..U+000D, U+001C..U+0020, U+0085, U+00A0,
  U+1680, U+2000..U+200A, U+2028, U+2029, U+202F, U+205F and U+3000.
\<close>

definition isspace :: "codepoint \<Rightarrow> bool" where
  "isspace c =
     ((9 \<le> c \<and> c \<le> 13) \<or> (28 \<le> c \<and> c \<le> 32) \<or> c = 133 \<or> c = 160 \<or> c = 5760 \<or>
      (8192 \<le> c \<and> c \<le> 8202) \<or> c = 8232 \<or> c = 8233 \<or> c = 8239 \<or> c = 8287 \<or> c = 12288)"

text \<open>\<^verbatim>\<open>s.strip()\<close>: leading and trailing whitespace removed.\<close>

definition strip :: "pystr \<Rightarrow> pystr" where
  "strip s = rev (dropWhile isspace (rev (dropWhile isspace s)))"

text \<open>\<^verbatim>\<open>re.sub(r"\s+", " ", s)\<close>: every maximal run of whitespace becomes one U+0020.\<close>

function sub_spaces :: "pystr \<Rightarrow> pystr" where
  "sub_spaces [] = []"
| "sub_spaces (c # cs) =
     (if isspace c then 32 # sub_spaces (dropWhile isspace cs) else c # sub_spaces cs)"
  by pat_completeness auto
termination
  by (relation "measure length") (auto simp: less_Suc_eq_le length_dropWhile_le)

text \<open>
  \<^verbatim>\<open>s.lower()\<close>. The source only ever asks whether a lowered string contains one of its
  ASCII keywords. ASCII and Latin-1 capitals map to their small letters; U+0130 lowers to
  \<open>i\<close> followed by U+0307 and U+212A (the Kelvin sign) to \<open>k\<close>. Every other code point
  lowers to code points outside ASCII and is left as it is.
\<close>

definition lower_cp :: "codepoint \<Rightarrow> pystr" where
  "lower_cp c =
     (if (65 \<le> c \<and> c \<le> 90) \<or> (192 \<le> c \<and> c \<le> 214) \<or> (216 \<le> c \<and> c \<le> 222) then [c + 32]
      else if c = 304 then [105, 775]
      else if c = 8490 then [107]
      else [c])"

definition lower :: "pystr \<Rightarrow> pystr" where
  "lower s = concat (map lower_cp s)"

text \<open>\<^verbatim>\<open>sub in s\<close>: \<open>sub\<close> occurs in \<open>s\<close> as a contiguous substring.\<close>

definition contains :: "pystr \<Rightarrow> pystr \<Rightarrow> bool" where
  "contains s sub = list_ex (\<lambda>i. take (length sub) (drop i s) = sub) [0..<Suc (length s)]"

text \<open>\<^verbatim>\<open>s.rfind(sub)\<close>: the highest index at which \<open>sub\<close> occurs in \<open>s\<close>, or \<open>-1\<close>.\<close>

definition rfind :: "pystr \<Rightarrow> pystr \<Rightarrow> int" where
  "rfind s sub =
     (case filter (\<lambda>i. take (length sub) (drop i s) = sub)
             (rev [0..<Suc (length s) - length sub]) of
        [] \<Rightarrow> - 1
      | i # _ \<Rightarrow> int i)"

text \<open>
  Slices never raise: an index below zero counts from the end, and every index is clamped
  to \<open>[0, len s]\<close>. \<open>slice s a b\<close> is \<^verbatim>\<open>s[a:b]\<close>; \<^verbatim>\<open>s[:b]\<close> is \<open>slice s 0 b\<close>.
\<close>

definition slice_index :: "int \<Rightarrow> int \<Rightarrow> int" where
  "slice_index n i = (if i < 0 then max 0 (i + n) else min i n)"

definition slice :: "pystr \<Rightarrow> int \<Rightarrow> int \<Rightarrow> pystr" where
  "slice s a b =
     (let lo = slice_index (len s) a; hi = slice_index (len s) b
      in take (nat (hi - lo)) (drop (nat lo) s))"

text \<open>
  \<^verbatim>\<open>s.rfind(sub, start, end)\<close>: the search is confined to \<^verbatim>\<open>s[start:end]\<close>; the index
  returned is relative to \<open>s\<close>.
\<close>

definition rfind_range :: "pystr \<Rightarrow> pystr \<Rightarrow> int \<Rightarrow> int \<Rightarrow> int" where
  "rfind_range s sub start end =
     (let n = len s;
          e = (if end > n then n else if end < 0 then max 0 (end + n) else end);
          b = (if start < 0 then max 0 (start + n) else start)
      in if e - b < len sub then - 1
         else (let r = rfind (take (nat (e - b)) (drop (nat b) s)) sub
               in if r = - 1 then - 1 else b + r))"

text \<open>\<^verbatim>\<open>sep.join(parts)\<close>.\<close>

fun join :: "pystr \<Rightarrow> pystr list \<Rightarrow> pystr" where
  "join sep [] = []"
| "join sep [p] = p"
| "join sep (p # q # ps) = p @ sep @ join sep (q # ps)"

text \<open>
  \<^verbatim>\<open>re.split\<close> on the character class of the source: vertical bar, hyphen-minus,
  en dash U+2013, em dash U+2014 and colon. Every separator splits, empty pieces are kept.
\<close>

definition is_separator :: "codepoint \<Rightarrow> bool" where
  "is_separator c = (c = 124 \<or> c = 45 \<or> c = 8211 \<or> c = 8212 \<or> c = 58)"

fun re_split :: "pystr \<Rightarrow> pystr list" where
  "re_split [] = [[]]"
| "re_split (c # cs) =
     (if is_separator c then [] # re_split cs
      else (case re_split cs of [] \<Rightarrow> [[c]] | p # ps \<Rightarrow> (c # p) # ps))"

section \<open>The functions of seo_fix_site.py\<close>

definition normalize_space :: "pystr \<Rightarrow> pystr" where
  "normalize_space text = sub_spaces (strip text)"

text \<open>
  The \<^verbatim>\<open>for punct in [". ", "! ", "? ", "; "]\<close> loop of \<^verbatim>\<open>_trim_to_word_boundary\<close>:
  the first kind of punctuation found in the window decides the cut.
\<close>

definition puncts :: "pystr list" where
  "puncts = [str ''. '', str ''! '', str ''? '', str ''; '']"

fun punct_cut :: "pystr \<Rightarrow> int \<Rightarrow> pystr list \<Rightarrow> int option" where
  "punct_cut window window_start [] = None"
| "punct_cut window window_start (punct # rest) =
     (let idx = rfind window punct
      in if idx = - 1 then punct_cut window window_start rest
         else Some (window_start + idx + 1))"

definition trim_to_word_boundary :: "pystr \<Rightarrow> int \<Rightarrow> pystr" where
  "trim_to_word_boundary text0 max_len =
     (let text = normalize_space text0
      in if len text \<le> max_len then text
         else (let window_start = max 0 (max_len - 60);
                   window = slice text window_start max_len
               in case punct_cut window window_start puncts of
                    Some cut1 \<Rightarrow> strip (slice text 0 cut1)
                  | None \<Rightarrow>
                      (let cut2 = rfind_range text (str '' '') 0 (max_len + 1)
                       in if cut2 \<le> 0 then strip (slice text 0 max_len)
                          else strip (slice text 0 cut2))))"

text \<open>
  The \<^verbatim>\<open>for suffix in suffixes\<close> loop of \<^verbatim>\<open>_extend_description\<close>. The result says
  whether the loop returned from the function (\<open>True\<close>) or ran to its end (\<open>False\<close>),
  with the text reached.
\<close>

definition suffixes :: "pystr list" where
  "suffixes = [str ''Serving Detroit & Metro Detroit.'', str ''Call (313) 389-6324.'']"

fun extend_loop :: "pystr list \<Rightarrow> pystr \<Rightarrow> int \<Rightarrow> int \<Rightarrow> bool \<times> pystr" where
  "extend_loop [] text min_len max_len = (False, text)"
| "extend_loop (suffix # rest) text min_len max_len =
     (let candidate = normalize_space
            (if text = [] then suffix else strip (text @ str '' '' @ suffix))
      in if len candidate > max_len then extend_loop rest text min_len max_len
         else if len candidate \<ge> min_len then (True, candidate)
         else extend_loop rest candidate min_len max_len)"

definition extend_description :: "pystr \<Rightarrow> int \<Rightarrow> int \<Rightarrow> pystr" where
  "extend_description text0 min_len max_len =
     (let text = normalize_space text0
      in if len text \<ge> min_len then trim_to_word_boundary text max_len
         else (case extend_loop suffixes text min_len max_len of
                 (True, r) \<Rightarrow> r
               | (False, text') \<Rightarrow>
                   (let extra = str ''Licensed & insured.'';
                        candidate = normalize_space (strip (text' @ str '' '' @ extra))
                    in if len candidate \<le> max_len then candidate else text')))"

text \<open>The block "Expand if too short" of \<^verbatim>\<open>_smart_title\<close>.\<close>

definition expand_title :: "pystr \<Rightarrow> int \<Rightarrow> int \<Rightarrow> pystr" where
  "expand_title title min_len max_len =
     (if len title < min_len then
        (let title1 =
               (if contains (lower title) (str ''midwest flip'') then title
                else if title = [] then str ''Midwest Flip LLC''
                else normalize_space (title @ str '' | Midwest Flip LLC''))
         in if len title1 < min_len then
              (let add = (if contains (lower title1) (str ''detroit'') then str ''Michigan''
                          else str ''Detroit'');
                   candidate = normalize_space (title1 @ str '' | '' @ add)
               in if len candidate \<le> max_len then candidate else title1)
            else title1)
      else title)"

text \<open>The block "Shorten if too long" of \<^verbatim>\<open>_smart_title\<close>.\<close>

definition title_keywords :: "pystr list" where
  "title_keywords = [str ''detroit'', str ''metro detroit'', str ''remodel'', str ''contractor'',
               str ''builder'', str ''services'']"

definition is_brand :: "pystr \<Rightarrow> bool" where
  "is_brand p = (contains (lower p) (str ''midwest'') \<and> contains (lower p) (str ''flip''))"

definition sort_key_title :: "pystr \<Rightarrow> int \<times> int" where
  "sort_key_title p = (- int (length (filter (\<lambda>k. contains (lower p) k) title_keywords)), len p)"

fun pick_parts :: "pystr list \<Rightarrow> pystr list \<Rightarrow> int \<Rightarrow> int \<Rightarrow> pystr list" where
  "pick_parts candidate_parts [] min_len max_len = candidate_parts"
| "pick_parts candidate_parts (p # rest) min_len max_len =
     (let cand = join (str '' | '') (candidate_parts @ [p]);
          candidate_parts1 = (if len cand \<le> max_len then candidate_parts @ [p]
                              else candidate_parts)
      in if len (join (str '' | '') candidate_parts1) \<ge> min_len then candidate_parts1
         else pick_parts candidate_parts1 rest min_len max_len)"

definition shorten_title :: "pystr \<Rightarrow> int \<Rightarrow> int \<Rightarrow> pystr" where
  "shorten_title title min_len max_len =
     (if len title > max_len then
        (let parts = filter (\<lambda>p. p \<noteq> []) (map strip (re_split title));
             brand = (case find is_brand parts of
                        None \<Rightarrow> str ''Midwest Flip LLC''
                      | Some p \<Rightarrow> if p = [] then str ''Midwest Flip LLC'' else p);
             descriptors = filter (\<lambda>p. p \<noteq> brand) parts;
             descriptors_sorted = sort_key sort_key_title descriptors;
             candidate_parts = pick_parts [brand] descriptors_sorted min_len max_len;
             title1 = join (str '' | '') candidate_parts
         in if len title1 > max_len then trim_to_word_boundary title1 max_len else title1)
      else title)"

definition fallback :: pystr where
  "fallback = str ''Midwest Flip LLC | Detroit Home Remodeling''"

definition smart_title :: "pystr \<Rightarrow> int \<Rightarrow> int \<Rightarrow> pystr" where
  "smart_title title0 min_len max_len =
     (let title = normalize_space title0;
          title1 = expand_title title min_len max_len;
          title2 = shorten_title title1 min_len max_len;
          title3 = trim_to_word_boundary title2 max_len
      in if len title3 < min_len then
           (if min_len \<le> len fallback \<and> len fallback \<le> max_len then fallback else title3)
         else title3)"

text \<open>
  The description steps of \<^verbatim>\<open>fix_file\<close> (lines 253 to 258), applied to the description
  \<open>old_desc\<close> extracted from the document.
\<close>

definition fix_file_description :: "pystr \<Rightarrow> int \<Rightarrow> int \<Rightarrow> pystr" where
  "fix_file_description old_desc desc_min desc_max =
     (let d2 = old_desc;
          d2a = (if len d2 > desc_max then trim_to_word_boundary d2 desc_max else d2);
          d2b = (if len d2a < desc_min then extend_description d2a desc_min desc_max else d2a)
      in trim_to_word_boundary d2b desc_max)"

section \<open>The same functions with the run-time errors of Python\<close>

text \<open>
  In the source two values can be \<^verbatim>\<open>None\<close> at run time: the argument of
  \<^verbatim>\<open>_normalize_space\<close>, which the function guards with \<^verbatim>\<open>(text or "")\<close>, and
  \<^verbatim>\<open>brand\<close> in \<^verbatim>\<open>_smart_title\<close>, initialised to \<^verbatim>\<open>None\<close> and guarded by
  \<^verbatim>\<open>if not brand\<close>. The operations applied to them raise on \<^verbatim>\<open>None\<close>:
  \<^verbatim>\<open>None.strip()\<close> is an \<^verbatim>\<open>AttributeError\<close> and \<^verbatim>\<open>" | ".join\<close> of a list
  with a \<^verbatim>\<open>None\<close> item is a \<^verbatim>\<open>TypeError\<close>. The definitions below follow the source
  with these values as \<open>option\<close> and the two operations returning an error or a result
  (\<open>Inl\<close> the error). Every other operation of the source is total on strings and
  integers: slices clamp their indices, \<^verbatim>\<open>rfind\<close> returns \<open>-1\<close>, and each loop runs
  over a finite list.
\<close>

datatype error = AttributeError | TypeError

text \<open>\<^verbatim>\<open>text or ""\<close>: \<^verbatim>\<open>None\<close> and the empty string are falsy.\<close>

definition or_empty :: "pystr option \<Rightarrow> pystr option" where
  "or_empty v = (case v of None \<Rightarrow> Some [] | Some s \<Rightarrow> if s = [] then Some [] else Some s)"

text \<open>\<^verbatim>\<open>v.strip()\<close> on a value that may be \<^verbatim>\<open>None\<close>.\<close>

definition strip_checked :: "pystr option \<Rightarrow> error + pystr" where
  "strip_checked v = (case v of None \<Rightarrow> Inl AttributeError | Some s \<Rightarrow> Inr (strip s))"

definition normalize_space_checked :: "pystr option \<Rightarrow> error + pystr" where
  "normalize_space_checked v =
     (case strip_checked (or_empty v) of
        Inl e \<Rightarrow> Inl e
      | Inr s \<Rightarrow> Inr (sub_spaces s))"

text \<open>\<^verbatim>\<open>sep.join(parts)\<close> on a list whose items may be \<^verbatim>\<open>None\<close>.\<close>

fun str_items :: "pystr option list \<Rightarrow> error + pystr list" where
  "str_items [] = Inr []"
| "str_items (None # ps) = Inl TypeError"
| "str_items (Some p # ps) =
     (case str_items ps of Inl e \<Rightarrow> Inl e | Inr qs \<Rightarrow> Inr (p # qs))"

definition join_checked :: "pystr \<Rightarrow> pystr option list \<Rightarrow> error + pystr" where
  "join_checked sep parts =
     (case str_items parts of Inl e \<Rightarrow> Inl e | Inr qs \<Rightarrow> Inr (join sep qs))"

text \<open>The loop over \<^verbatim>\<open>descriptors_sorted\<close>, with \<^verbatim>\<open>candidate_parts = [brand]\<close>.\<close>

fun pick_parts_checked ::
  "pystr option list \<Rightarrow> pystr list \<Rightarrow> int \<Rightarrow> int \<Rightarrow> error + pystr option list" where
  "pick_parts_checked candidate_parts [] min_len max_len = Inr candidate_parts"
| "pick_parts_checked candidate_parts (p # rest) min_len max_len =
     (case join_checked (str '' | '') (candidate_parts @ [Some p]) of
        Inl e \<Rightarrow> Inl e
      | Inr cand \<Rightarrow>
          (let candidate_parts1 = (if len cand \<le> max_len then candidate_parts @ [Some p]
                                   else candidate_parts)
           in case join_checked (str '' | '') candidate_parts1 of
                Inl e \<Rightarrow> Inl e
              | Inr joined \<Rightarrow>
                  if len joined \<ge> min_len then Inr candidate_parts1
                  else pick_parts_checked candidate_parts1 rest min_len max_len))"

definition shorten_title_checked :: "pystr \<Rightarrow> int \<Rightarrow> int \<Rightarrow> error + pystr" where
  "shorten_title_checked title min_len max_len =
     (if len title > max_len then
        (let parts = filter (\<lambda>p. p \<noteq> []) (map strip (re_split title));
             brand0 = find is_brand parts;
             brand = (case brand0 of
                        None \<Rightarrow> Some (str ''Midwest Flip LLC'')
                      | Some p \<Rightarrow> if p = [] then Some (str ''Midwest Flip LLC'') else brand0);
             descriptors = filter (\<lambda>p. Some p \<noteq> brand) parts;
             descriptors_sorted = sort_key sort_key_title descriptors
         in case pick_parts_checked [brand] descriptors_sorted min_len max_len of
              Inl e \<Rightarrow> Inl e
            | Inr candidate_parts \<Rightarrow>
                (case join_checked (str '' | '') candidate_parts of
                   Inl e \<Rightarrow> Inl e
                 | Inr title1 \<Rightarrow>
                     Inr (if len title1 > max_len then trim_to_word_boundary title1 max_len
                          else title1)))
      else Inr title)"

definition smart_title_checked :: "pystr option \<Rightarrow> int \<Rightarrow> int \<Rightarrow> error + pystr" where
  "smart_title_checked title0 min_len max_len =
     (case normalize_space_checked title0 of
        Inl e \<Rightarrow> Inl e
      | Inr title \<Rightarrow>
          (case shorten_title_checked (expand_title title min_len max_len) min_len max_len of
             Inl e \<Rightarrow> Inl e
           | Inr title2 \<Rightarrow>
               (let title3 = trim_to_word_boundary title2 max_len
                in if len title3 < min_len then
                     (if min_len \<le> len fallback \<and> len fallback \<le> max_len then Inr fallback
                      else Inr title3)
                   else Inr title3)))"

definition extend_description_checked :: "pystr option \<Rightarrow> int \<Rightarrow> int \<Rightarrow> error + pystr" where
  "extend_description_checked text0 min_len max_len =
     (case normalize_space_checked text0 of
        Inl e \<Rightarrow> Inl e
      | Inr text \<Rightarrow>
          if len text \<ge> min_len then Inr (trim_to_word_boundary text max_len)
          else (case extend_loop suffixes text min_len max_len of
                  (True, r) \<Rightarrow> Inr r
                | (False, text') \<Rightarrow>
                    (let extra = str ''Licensed & insured.'';
                         candidate = normalize_space (strip (text' @ str '' '' @ extra))
                     in if len candidate \<le> max_len then Inr candidate else Inr text')))"

section \<open>Whitespace-normal strings\<close>

text \<open>
  \<open>tidy\<close>: every whitespace character is a single U+0020 that is not followed by another
  whitespace character. \<open>normal\<close>: tidy, with no whitespace at either end. These two
  describe the strings \<open>normalize_space\<close> produces and are used in the proofs.
\<close>

fun tidy :: "pystr \<Rightarrow> bool" where
  "tidy [] = True"
| "tidy (c # cs) =
     ((if isspace c then c = 32 \<and> (case cs of [] \<Rightarrow> True | d # _ \<Rightarrow> \<not> isspace d) else True)
      \<and> tidy cs)"

definition normal :: "pystr \<Rightarrow> bool" where
  "normal t = (tidy t \<and> strip t = t)"

text \<open>
  The property of a result the specification speaks of: it is a fixed point of
  \<open>normalize_space\<close>, \<open>strip\<close> leaves it as it is (no whitespace at either end), and no
  two whitespace characters are adjacent.
\<close>

fun no_space_run :: "pystr \<Rightarrow> bool" where
  "no_space_run (c # d # cs) = (if isspace c \<and> isspace d then False else no_space_run (d # cs))"
| "no_space_run cs = True"

definition whitespace_normalized :: "pystr \<Rightarrow> bool" where
  "whitespace_normalized r = (normalize_space r = r \<and> strip r = r \<and> no_space_run r)"

section \<open>Whitespace: stripping and collapsing\<close>

lemma isspace_32: "isspace 32"
  by (simp add: isspace_def)

lemma rstrip_take: "rev (dropWhile P (rev s)) = take (length s - length (takeWhile P (rev s))) s"
proof -
  have "dropWhile P (rev s) = drop (length (takeWhile P (rev s))) (rev s)"
    by (rule dropWhile_eq_drop)
  then show ?thesis
    by (simp add: rev_drop)
qed

lemma length_strip_le: "length (strip s) \<le> length s"
proof -
  have "length (dropWhile isspace (rev (dropWhile isspace s))) \<le> length (rev (dropWhile isspace s))"
    by (rule length_dropWhile_le)
  then have "length (strip s) \<le> length (dropWhile isspace s)"
    by (simp add: strip_def)
  also have "\<dots> \<le> length s"
    by (rule length_dropWhile_le)
  finally show ?thesis .
qed

lemma strip_fixed:
  assumes "t = [] \<or> (\<not> isspace (hd t) \<and> \<not> isspace (last t))"
  shows "strip t = t"
proof (cases "t = []")
  case True
  then show ?thesis by (simp add: strip_def)
next
  case False
  with assms have h: "\<not> isspace (hd t)" and l: "\<not> isspace (last t)" by auto
  from False h have "dropWhile isspace t = t"
    by (cases t) auto
  moreover from False l have "dropWhile isspace (rev t) = rev t"
    by (cases "rev t") (auto simp: last_rev hd_rev)
  ultimately show ?thesis
    by (simp add: strip_def)
qed

lemma strip_ends:
  "strip s = [] \<or> (\<not> isspace (hd (strip s)) \<and> \<not> isspace (last (strip s)))"
proof (cases "strip s = []")
  case True
  then show ?thesis by simp
next
  case False
  let ?u = "dropWhile isspace s"
  let ?w = "dropWhile isspace (rev ?u)"
  have sw: "strip s = rev ?w" by (simp add: strip_def)
  with False have wne: "?w \<noteq> []" by simp
  then have "\<not> isspace (hd ?w)" by (rule hd_dropWhile)
  then have l: "\<not> isspace (last (strip s))"
    using wne by (simp add: sw last_rev)
  from wne have une: "?u \<noteq> []" by (auto simp del: dropWhile_eq_Nil_conv)
  then have hu: "\<not> isspace (hd ?u)" by (rule hd_dropWhile)
  have "strip s = take (length ?u - length (takeWhile isspace (rev ?u))) ?u"
    unfolding strip_def by (rule rstrip_take)
  with False have "hd (strip s) = hd ?u"
    by (metis hd_take take_eq_Nil2 gr0I take_eq_Nil)
  with hu l show ?thesis by simp
qed

lemma strip_strip: "strip (strip s) = strip s"
  by (rule strip_fixed) (rule strip_ends)

lemma strip_take_drop: "\<exists>j k. strip s = take k (drop j s)"
proof -
  have "strip s = take (length (dropWhile isspace s) - length (takeWhile isspace (rev (dropWhile isspace s)))) (dropWhile isspace s)"
    unfolding strip_def by (rule rstrip_take)
  then show ?thesis
    by (metis dropWhile_eq_drop)
qed

lemma tidy_drop: "tidy t \<Longrightarrow> tidy (drop n t)"
proof (induction t arbitrary: n)
  case Nil
  then show ?case by simp
next
  case (Cons c cs)
  then show ?case by (cases n) auto
qed

lemma tidy_take: "tidy t \<Longrightarrow> tidy (take n t)"
proof (induction t arbitrary: n)
  case Nil
  then show ?case by simp
next
  case (Cons c cs)
  show ?case
  proof (cases n)
    case 0
    then show ?thesis by simp
  next
    case (Suc m)
    from Cons have "tidy (take m cs)" by simp
    moreover have "isspace c \<Longrightarrow> c = 32 \<and> (case take m cs of [] \<Rightarrow> True | d # _ \<Rightarrow> \<not> isspace d)"
      using Cons.prems by (cases cs; cases m) (auto split: if_splits)
    ultimately show ?thesis using Suc by simp
  qed
qed

lemma tidy_strip:
  assumes "tidy t"
  shows "tidy (strip t)"
proof -
  obtain j k where "strip t = take k (drop j t)"
    using strip_take_drop by blast
  moreover have "tidy (take k (drop j t))"
    using assms by (intro tidy_take tidy_drop)
  ultimately show ?thesis by simp
qed

lemma tidy_imp_normal_strip: "tidy t \<Longrightarrow> normal (strip t)"
  by (simp add: normal_def tidy_strip strip_strip)

lemma sub_spaces_Nil_iff: "sub_spaces xs = [] \<longleftrightarrow> xs = []"
  by (cases xs) auto

lemma hd_sub_spaces: "xs \<noteq> [] \<Longrightarrow> isspace (hd (sub_spaces xs)) = isspace (hd xs)"
  by (cases xs) (auto simp: isspace_32)

lemma tidy_sub_spaces: "tidy (sub_spaces s)"
proof (induction s rule: sub_spaces.induct)
  case 1
  then show ?case by simp
next
  case (2 c cs)
  show ?case
  proof (cases "isspace c")
    case True
    let ?r = "dropWhile isspace cs"
    have t: "tidy (sub_spaces ?r)" using 2 True by simp
    have "case sub_spaces ?r of [] \<Rightarrow> True | d # _ \<Rightarrow> \<not> isspace d"
    proof (cases "?r = []")
      case True
      then have "sub_spaces ?r = []" by (simp only: sub_spaces.simps)
      then show ?thesis by (simp only: list.case)
    next
      case False
      then have "\<not> isspace (hd ?r)" by (rule hd_dropWhile)
      with False have "\<not> isspace (hd (sub_spaces ?r))" by (simp add: hd_sub_spaces)
      then show ?thesis by (cases "sub_spaces ?r") auto
    qed
    with t True show ?thesis by (simp add: isspace_32)
  next
    case False
    with 2 show ?thesis by simp
  qed
qed

lemma sub_spaces_tidy: "tidy t \<Longrightarrow> sub_spaces t = t"
proof (induction t)
  case Nil
  then show ?case by simp
next
  case (Cons c cs)
  show ?case
  proof (cases "isspace c")
    case True
    with Cons.prems have "dropWhile isspace cs = cs"
      by (cases cs) auto
    with Cons True show ?thesis by simp
  next
    case False
    with Cons show ?thesis by simp
  qed
qed

lemma last_sub_spaces:
  "xs \<noteq> [] \<Longrightarrow> \<not> isspace (last xs) \<Longrightarrow> \<not> isspace (last (sub_spaces xs))"
proof (induction xs rule: sub_spaces.induct)
  case 1
  then show ?case by simp
next
  case (2 c cs)
  show ?case
  proof (cases "isspace c")
    case True
    with "2.prems" have csne: "cs \<noteq> []" by auto
    with "2.prems" have lc: "\<not> isspace (last cs)" by simp
    let ?r = "dropWhile isspace cs"
    from csne lc have rne: "?r \<noteq> []"
      by (metis dropWhile_eq_Nil_conv last_in_set)
    then have "last ?r = last cs"
      by (metis last_appendR takeWhile_dropWhile_id)
    with lc rne "2.IH"(1) True have "\<not> isspace (last (sub_spaces ?r))" by simp
    with rne True show ?thesis by (simp add: sub_spaces_Nil_iff del: dropWhile_eq_Nil_conv)
  next
    case False
    show ?thesis
    proof (cases "cs = []")
      case True
      with False show ?thesis by simp
    next
      case cne: False
      with "2.prems" "2.IH"(2) False have "\<not> isspace (last (sub_spaces cs))" by simp
      with cne False show ?thesis by (simp add: sub_spaces_Nil_iff)
    qed
  qed
qed

lemma normal_normalize_space: "normal (normalize_space s)"
proof -
  let ?u = "strip s"
  have t: "tidy (sub_spaces ?u)" by (rule tidy_sub_spaces)
  have "strip (sub_spaces ?u) = sub_spaces ?u"
  proof (rule strip_fixed, cases "?u = []")
    case True
    then show "sub_spaces ?u = [] \<or> (\<not> isspace (hd (sub_spaces ?u)) \<and> \<not> isspace (last (sub_spaces ?u)))"
      by simp
  next
    case False
    with strip_ends [of s] have "\<not> isspace (hd ?u)" "\<not> isspace (last ?u)" by auto
    with False show "sub_spaces ?u = [] \<or> (\<not> isspace (hd (sub_spaces ?u)) \<and> \<not> isspace (last (sub_spaces ?u)))"
      by (simp add: hd_sub_spaces last_sub_spaces)
  qed
  with t show ?thesis by (simp add: normal_def normalize_space_def)
qed

lemma normalize_space_normal: "normal t \<Longrightarrow> normalize_space t = t"
  by (simp add: normal_def normalize_space_def sub_spaces_tidy)

lemma normalize_space_idem: "normalize_space (normalize_space s) = normalize_space s"
  by (rule normalize_space_normal) (rule normal_normalize_space)

section \<open>Searching, slicing and trimming\<close>

lemma len_nonneg: "0 \<le> len s"
  by (simp add: len_def)

lemma rfind_cases:
  "(rfind s sub = - 1 \<and> (\<forall>i. i + length sub \<le> length s \<longrightarrow> take (length sub) (drop i s) \<noteq> sub))
   \<or> (\<exists>i. rfind s sub = int i \<and> i + length sub \<le> length s \<and> take (length sub) (drop i s) = sub
        \<and> (\<forall>j. j + length sub \<le> length s \<and> take (length sub) (drop j s) = sub \<longrightarrow> j \<le> i))"
proof -
  let ?P = "\<lambda>i. take (length sub) (drop i s) = sub"
  let ?xs = "rev [0..<Suc (length s) - length sub]"
  show ?thesis
  proof (cases "filter ?P ?xs")
    case Nil
    then have "\<forall>i \<in> set ?xs. \<not> ?P i"
      by (simp add: filter_empty_conv)
    then have "\<forall>i. i + length sub \<le> length s \<longrightarrow> \<not> ?P i"
      by auto
    with Nil show ?thesis by (simp add: rfind_def)
  next
    case (Cons i rest)
    then have r: "rfind s sub = int i" by (simp add: rfind_def)
    from Cons obtain us vs where dec: "?xs = us @ i # vs" and nus: "\<forall>u \<in> set us. \<not> ?P u" and pi: "?P i"
      by (auto simp: filter_eq_Cons_iff)
    have "i \<in> set ?xs" using dec by simp
    then have ib: "i + length sub \<le> length s" by auto
    have srt: "sorted (rev ?xs)" by simp
    have "\<forall>j. j + length sub \<le> length s \<and> ?P j \<longrightarrow> j \<le> i"
    proof (intro allI impI)
      fix j assume a: "j + length sub \<le> length s \<and> ?P j"
      then have "j \<in> set ?xs" by auto
      with dec nus a have "j = i \<or> j \<in> set vs" by auto
      moreover have "\<forall>v \<in> set vs. v \<le> i"
        using srt dec by (simp add: sorted_append)
      ultimately show "j \<le> i" by auto
    qed
    with r ib pi show ?thesis by blast
  qed
qed

lemma length_slice_0: "0 \<le> b \<Longrightarrow> int (length (slice s 0 b)) \<le> b"
  by (simp add: slice_def slice_index_def len_def Let_def)

lemma slice_0_take: "0 \<le> b \<Longrightarrow> slice s 0 b = take (nat b) s"
  by (auto simp: slice_def slice_index_def len_def Let_def min_def)

lemma slice_take_drop: "\<exists>j k. slice s a b = take k (drop j s)"
  unfolding slice_def Let_def by blast

lemma tidy_slice: "tidy t \<Longrightarrow> tidy (slice t a b)"
  unfolding slice_def Let_def by (intro tidy_take tidy_drop)

lemma normal_strip_slice: "normal t \<Longrightarrow> normal (strip (slice t a b))"
  by (rule tidy_imp_normal_strip, rule tidy_slice) (simp add: normal_def)

lemma len_strip_slice_0: "0 \<le> b \<Longrightarrow> len (strip (slice s 0 b)) \<le> b"
proof -
  assume b: "0 \<le> b"
  have "length (strip (slice s 0 b)) \<le> length (slice s 0 b)"
    by (rule length_strip_le)
  with length_slice_0 [OF b, of s] show ?thesis
    by (simp add: len_def)
qed

lemma punct_cut_bound:
  assumes "punct_cut window ws ps = Some c" and "\<forall>p \<in> set ps. length p = 2"
  shows "ws + 1 \<le> c \<and> c + 1 \<le> ws + len window"
  using assms
proof (induction ps)
  case Nil
  then show ?case by simp
next
  case (Cons p ps)
  show ?case
  proof (cases "rfind window p = - 1")
    case True
    with Cons show ?thesis by simp
  next
    case False
    with rfind_cases [of window p] obtain i where
      i: "rfind window p = int i" "i + length p \<le> length window" by auto
    with Cons.prems False have "c = ws + int i + 1" "length p = 2" by (auto simp: Let_def)
    with i show ?thesis by (simp add: len_def)
  qed
qed

lemma puncts_length: "\<forall>p \<in> set puncts. length p = 2"
  by (simp add: puncts_def str_def)

lemma rfind_range_0_bound:
  assumes "0 \<le> e"
  shows "rfind_range s sub 0 e = - 1 \<or> (0 \<le> rfind_range s sub 0 e \<and> rfind_range s sub 0 e + len sub \<le> e)"
proof -
  let ?n = "len s"
  let ?e = "if e > ?n then ?n else e"
  let ?w = "take (nat ?e) s"
  have lw: "int (length ?w) \<le> e" using assms by (auto simp: len_def)
  show ?thesis
  proof (cases "rfind ?w sub = - 1 \<or> ?e < len sub")
    case True
    with assms show ?thesis by (auto simp: rfind_range_def Let_def)
  next
    case False
    with rfind_cases [of ?w sub] obtain i where
      i: "rfind ?w sub = int i" "i + length sub \<le> length ?w" by auto
    with False assms have "rfind_range s sub 0 e = int i"
      by (auto simp: rfind_range_def Let_def)
    moreover from i(2) assms have "int i + int (length sub) \<le> e"
      by (cases "e > ?n") (auto simp: len_def)
    ultimately show ?thesis by (simp add: len_def)
  qed
qed

lemma len_trim_to_word_boundary:
  assumes "0 \<le> max_len"
  shows "len (trim_to_word_boundary text max_len) \<le> max_len"
proof -
  let ?t = "normalize_space text"
  let ?ws = "max 0 (max_len - 60)"
  let ?window = "slice ?t ?ws max_len"
  show ?thesis
  proof (cases "len ?t \<le> max_len")
    case True
    then show ?thesis by (simp add: trim_to_word_boundary_def)
  next
    case long: False
    have lw: "?ws + len ?window \<le> max_len"
      using assms long by (auto simp: slice_def slice_index_def Let_def len_def)
    show ?thesis
    proof (cases "punct_cut ?window ?ws puncts")
      case (Some c)
      with punct_cut_bound [OF Some puncts_length] lw have "0 \<le> c" "c \<le> max_len" by auto
      with len_strip_slice_0 [of c ?t] have "len (strip (slice ?t 0 c)) \<le> max_len" by simp
      with long Some show ?thesis by (simp add: trim_to_word_boundary_def Let_def)
    next
      case None
      let ?c = "rfind_range ?t (str '' '') 0 (max_len + 1)"
      show ?thesis
      proof (cases "?c \<le> 0")
        case True
        with long None len_strip_slice_0 [OF assms, of ?t] show ?thesis
          by (simp add: trim_to_word_boundary_def Let_def)
      next
        case False
        with rfind_range_0_bound [of "max_len + 1" ?t "str '' ''"] assms
        have "0 \<le> ?c" "?c \<le> max_len" by (auto simp: len_def str_def)
        with len_strip_slice_0 [of ?c ?t] have "len (strip (slice ?t 0 ?c)) \<le> max_len" by simp
        with long None False show ?thesis by (simp add: trim_to_word_boundary_def Let_def)
      qed
    qed
  qed
qed

lemma normal_trim_to_word_boundary: "normal (trim_to_word_boundary text max_len)"
  unfolding trim_to_word_boundary_def Let_def
  by (auto simp: normal_normalize_space normal_strip_slice split: option.splits)

lemma trim_noop: "normal t \<Longrightarrow> len t \<le> max_len \<Longrightarrow> trim_to_word_boundary t max_len = t"
  by (simp add: trim_to_word_boundary_def normalize_space_normal)

section \<open>Extending descriptions and titles\<close>

lemma tidy_no_space_run: "tidy t \<Longrightarrow> no_space_run t"
  by (induction t rule: no_space_run.induct) (auto split: if_splits)

lemma normal_whitespace_normalized: "normal r \<Longrightarrow> whitespace_normalized r"
  by (simp add: whitespace_normalized_def normalize_space_normal tidy_no_space_run)
     (simp add: normal_def tidy_no_space_run)

lemma length_sub_spaces_le: "length (sub_spaces s) \<le> length s"
proof (induction s rule: sub_spaces.induct)
  case 1
  then show ?case by simp
next
  case (2 c cs)
  have "length (dropWhile isspace cs) \<le> length cs" by (rule length_dropWhile_le)
  with 2 show ?case by (cases "isspace c") auto
qed

lemma len_normalize_space_le: "len (normalize_space s) \<le> len s"
proof -
  have "length (sub_spaces (strip s)) \<le> length (strip s)" by (rule length_sub_spaces_le)
  also have "\<dots> \<le> length s" by (rule length_strip_le)
  finally show ?thesis by (simp add: len_def normalize_space_def)
qed

lemma normal_extend_loop:
  "normal t \<Longrightarrow> normal (snd (extend_loop sfx t min_len max_len))"
proof (induction sfx arbitrary: t)
  case Nil
  then show ?case by simp
next
  case (Cons suffix rest)
  let ?cand = "normalize_space (if t = [] then suffix else strip (t @ str '' '' @ suffix))"
  have nc: "normal ?cand" by (rule normal_normalize_space)
  show ?case
  proof (cases "len ?cand > max_len")
    case True
    with Cons show ?thesis by (simp add: Let_def)
  next
    case False
    with Cons.IH [OF nc] nc show ?thesis by (simp add: Let_def)
  qed
qed

lemma normal_extend_description: "normal (extend_description text min_len max_len)"
proof (cases "len (normalize_space text) \<ge> min_len")
  case True
  then show ?thesis
    by (simp add: extend_description_def normal_trim_to_word_boundary)
next
  case False
  let ?t = "normalize_space text"
  obtain b t' where lp: "extend_loop suffixes ?t min_len max_len = (b, t')"
    by (cases "extend_loop suffixes ?t min_len max_len")
  have "normal (snd (extend_loop suffixes ?t min_len max_len))"
    by (rule normal_extend_loop) (rule normal_normalize_space)
  with lp have "normal t'" by simp
  with False lp show ?thesis
    by (cases b) (simp_all add: extend_description_def Let_def normal_normalize_space)
qed

lemma normal_fallback: "normal fallback"
  by code_simp

lemma normal_smart_title: "normal (smart_title title min_len max_len)"
  by (simp add: smart_title_def Let_def normal_trim_to_word_boundary normal_fallback)

lemma len_fallback: "len fallback = 42"
  by code_simp

lemma len_smart_title: "0 \<le> max_len \<Longrightarrow> len (smart_title title min_len max_len) \<le> max_len"
  by (simp add: smart_title_def Let_def len_trim_to_word_boundary)

lemma len_fix_file_description:
  "0 \<le> desc_max \<Longrightarrow> len (fix_file_description old_desc desc_min desc_max) \<le> desc_max"
  by (simp add: fix_file_description_def Let_def len_trim_to_word_boundary)

lemma smart_title_in_window:
  assumes "min_len \<le> len (normalize_space s)" and "len (normalize_space s) \<le> max_len"
  shows "smart_title s min_len max_len = normalize_space s"
proof -
  let ?t = "normalize_space s"
  from assms have e: "expand_title ?t min_len max_len = ?t"
    by (simp add: expand_title_def)
  from assms have sh: "shorten_title ?t min_len max_len = ?t"
    by (simp add: shorten_title_def)
  from assms have tr: "trim_to_word_boundary ?t max_len = ?t"
    by (simp add: trim_noop normal_normalize_space)
  from assms e sh tr show ?thesis
    by (simp add: smart_title_def Let_def)
qed

lemma trim_short: "len (normalize_space s) \<le> max_len \<Longrightarrow> trim_to_word_boundary s max_len = normalize_space s"
  by (simp add: trim_to_word_boundary_def)

lemma fix_file_description_in_window:
  assumes "min_len \<le> len (normalize_space s)" and "len (normalize_space s) \<le> max_len"
  shows "fix_file_description s min_len max_len = normalize_space s"
proof (cases "len s > max_len")
  case True
  with assms show ?thesis
    by (simp add: fix_file_description_def Let_def trim_short normalize_space_idem)
next
  case False
  from assms(1) len_normalize_space_le [of s] have "min_len \<le> len s" by simp
  with False assms show ?thesis
    by (simp add: fix_file_description_def Let_def trim_short)
qed

lemma smart_title_reaches_fallback_window:
  assumes "min_len \<le> 42" and "42 \<le> max_len"
  shows "min_len \<le> len (smart_title s min_len max_len) \<and> len (smart_title s min_len max_len) \<le> max_len"
proof -
  from assms have "0 \<le> max_len" by simp
  then have "len (smart_title s min_len max_len) \<le> max_len" by (rule len_smart_title)
  moreover from assms have "min_len \<le> len (smart_title s min_len max_len)"
    by (simp add: smart_title_def Let_def len_fallback)
  ultimately show ?thesis by simp
qed

lemma smart_title_idem_in_window:
  assumes "min_len \<le> len (smart_title s min_len max_len)"
    and "len (smart_title s min_len max_len) \<le> max_len"
  shows "smart_title (smart_title s min_len max_len) min_len max_len = smart_title s min_len max_len"
proof -
  have n: "normalize_space (smart_title s min_len max_len) = smart_title s min_len max_len"
    by (rule normalize_space_normal) (rule normal_smart_title)
  with assms smart_title_in_window [of min_len "smart_title s min_len max_len" max_len]
  show ?thesis by simp
qed

lemma normal_fix_file_description: "normal (fix_file_description d desc_min desc_max)"
  by (simp add: fix_file_description_def Let_def normal_trim_to_word_boundary)

lemma fix_file_description_idem_in_window:
  assumes "min_len \<le> len (fix_file_description s min_len max_len)"
    and "len (fix_file_description s min_len max_len) \<le> max_len"
  shows "fix_file_description (fix_file_description s min_len max_len) min_len max_len
         = fix_file_description s min_len max_len"
proof -
  have n: "normalize_space (fix_file_description s min_len max_len) = fix_file_description s min_len max_len"
    by (rule normalize_space_normal) (rule normal_fix_file_description)
  with assms fix_file_description_in_window [of min_len "fix_file_description s min_len max_len" max_len]
  show ?thesis by simp
qed

lemma normalize_space_first_suffix:
  "normalize_space (str ''Serving Detroit & Metro Detroit.'') = str ''Serving Detroit & Metro Detroit.''"
  by code_simp

lemma len_first_suffix: "len (str ''Serving Detroit & Metro Detroit.'') = 32"
  by code_simp

lemma normalize_space_Nil: "normalize_space [] = []"
  by code_simp

lemma extend_description_empty_first:
  assumes "0 < min_len" and "min_len \<le> 32" and "32 \<le> max_len"
  shows "extend_description [] min_len max_len = str ''Serving Detroit & Metro Detroit.''"
  using assms
  by (simp add: extend_description_def suffixes_def Let_def normalize_space_Nil
      normalize_space_first_suffix len_first_suffix)
     (simp add: len_def)

section \<open>Where the trim cuts\<close>

lemma normal_hd: "normal t \<Longrightarrow> t \<noteq> [] \<Longrightarrow> \<not> isspace (t ! 0)"
proof -
  assume n: "normal t" and ne: "t \<noteq> []"
  then have "strip t = t" by (simp add: normal_def)
  with strip_ends [of t] ne have "\<not> isspace (hd t)" by simp
  with ne show ?thesis by (simp add: hd_conv_nth)
qed

lemma tidy_adjacent: "tidy t \<Longrightarrow> Suc j < length t \<Longrightarrow> isspace (t ! Suc j) \<Longrightarrow> \<not> isspace (t ! j)"
proof (induction t arbitrary: j)
  case Nil
  then show ?case by simp
next
  case (Cons c cs)
  show ?case
  proof (cases j)
    case 0
    with Cons.prems show ?thesis by (cases cs) (auto split: if_splits)
  next
    case (Suc m)
    with Cons show ?thesis by simp
  qed
qed

lemma strip_take_word_end:
  assumes "normal t" and "0 < k" and "k \<le> length t" and "\<not> isspace (t ! (k - 1))"
  shows "strip (take k t) = take k t"
proof (rule strip_fixed)
  from assms(2,3) have ne: "t \<noteq> []" by auto
  from assms(2,3) have tk: "take k t \<noteq> []" by auto
  have "hd (take k t) = t ! 0" using assms(2) ne by (simp add: hd_conv_nth)
  moreover have "last (take k t) = t ! (k - 1)"
    using assms(2,3) tk by (simp add: last_conv_nth min_def)
  ultimately show "take k t = [] \<or> (\<not> isspace (hd (take k t)) \<and> \<not> isspace (last (take k t)))"
    using normal_hd [OF assms(1) ne] assms(4) by simp
qed

lemma punct_cut_match:
  assumes "punct_cut window ws ps = Some c"
  shows "\<exists>p idx. p \<in> set ps \<and> c = ws + int idx + 1 \<and> idx + length p \<le> length window
                 \<and> take (length p) (drop idx window) = p"
  using assms
proof (induction ps)
  case Nil
  then show ?case by simp
next
  case (Cons p ps)
  show ?case
  proof (cases "rfind window p = - 1")
    case True
    with Cons obtain q idx where "q \<in> set ps" "c = ws + int idx + 1"
      "idx + length q \<le> length window" "take (length q) (drop idx window) = q"
      by auto
    then show ?thesis by (intro exI [of _ q] exI [of _ idx]) simp
  next
    case False
    with rfind_cases [of window p] obtain i where
      i: "rfind window p = int i" "i + length p \<le> length window"
         "take (length p) (drop i window) = p" by auto
    with Cons.prems False have "c = ws + int i + 1" by (auto simp: Let_def)
    with i show ?thesis by (intro exI [of _ p] exI [of _ i]) simp
  qed
qed

lemma puncts_shape: "p \<in> set puncts \<Longrightarrow> \<exists>x. p = [x, 32] \<and> \<not> isspace x"
  by (auto simp: puncts_def str_def isspace_def)

lemma take2_drop_nth:
  assumes "take (length [x, y]) (drop i w) = [x, y]"
  shows "w ! i = x \<and> w ! Suc i = y \<and> Suc i < length w"
proof -
  from assms have e: "take 2 (drop i w) = [x, y]" by (simp add: numeral_2_eq_2)
  then have "length (take 2 (drop i w)) = 2" by simp
  then have l: "Suc i < length w" by auto
  have "[x, y] ! 0 = take 2 (drop i w) ! 0" "[x, y] ! 1 = take 2 (drop i w) ! 1"
    using e by simp_all
  with l show ?thesis by simp
qed

lemma trim_at_boundary:
  assumes long: "max_len < len (normalize_space s)"
    and i: "1 \<le> i" "i \<le> max_len" "normalize_space s ! nat i = 32"
  shows "\<exists>k. 0 < k \<and> int k \<le> max_len
             \<and> trim_to_word_boundary s max_len = take k (normalize_space s)
             \<and> normalize_space s ! k = 32
             \<and> \<not> isspace (normalize_space s ! (k - 1))"
proof -
  let ?t = "normalize_space s"
  let ?ws = "max 0 (max_len - 60)"
  let ?window = "slice ?t ?ws max_len"
  have nt: "normal ?t" by (rule normal_normalize_space)
  then have tt: "tidy ?t" by (simp add: normal_def)
  from long have n: "max_len < int (length ?t)" by (simp add: len_def)
  from i have m: "1 \<le> max_len" by simp
  have win: "?window = take (nat (max_len - ?ws)) (drop (nat ?ws) ?t)"
    using n m by (auto simp: slice_def slice_index_def Let_def len_def)
  show ?thesis
  proof (cases "punct_cut ?window ?ws puncts")
    case (Some c)
    from punct_cut_match [OF Some] obtain p idx where
      p: "p \<in> set puncts" "c = ?ws + int idx + 1" "idx + length p \<le> length ?window"
         "take (length p) (drop idx ?window) = p" by blast
    from puncts_shape [OF p(1)] obtain x where x: "p = [x, 32]" "\<not> isspace x" by blast
    with p(4) have "take (length [x, 32::int]) (drop idx ?window) = [x, 32]" by simp
    from take2_drop_nth [OF this] have w: "?window ! idx = x" "?window ! Suc idx = 32"
      "Suc idx < length ?window" by simp_all
    let ?k = "nat ?ws + Suc idx"
    from w(3) win have b: "int (Suc idx) < max_len - ?ws" "nat ?ws + Suc idx < length ?t"
      by auto
    from w win b have tx: "?t ! (nat ?ws + idx) = x" "?t ! ?k = 32"
      by auto
    have kc: "int ?k = c" using p(2) by simp
    have kpos: "0 < ?k" by simp
    have kle: "int ?k \<le> max_len" using b(1) by simp
    from tx(1) x(2) have "\<not> isspace (?t ! (?k - 1))" by simp
    moreover from this have "strip (take ?k ?t) = take ?k ?t"
      using b(2) by (intro strip_take_word_end [OF nt]) simp_all
    moreover have "slice ?t 0 c = take ?k ?t"
    proof -
      from kc have c0: "0 \<le> c" and nc: "nat c = ?k" by linarith+
      from slice_0_take [OF c0, of ?t] nc show ?thesis by simp
    qed
    ultimately have "trim_to_word_boundary s max_len = take ?k ?t"
      using long Some by (simp add: trim_to_word_boundary_def Let_def)
    with kpos kle tx(2) \<open>\<not> isspace (?t ! (?k - 1))\<close> show ?thesis by blast
  next
    case None
    let ?c = "rfind_range ?t (str '' '') 0 (max_len + 1)"
    let ?w = "take (nat (max_len + 1)) ?t"
    have sp: "str '' '' = [32]" by (simp add: str_def)
    have c: "?c = (let r = rfind ?w [32] in if r = - 1 then - 1 else r)"
      using n m by (auto simp: rfind_range_def Let_def len_def sp)
    have iw: "nat i + length [32::int] \<le> length ?w" "take (length [32::int]) (drop (nat i) ?w) = [32]"
      using i n by (auto simp: take_Suc_conv_app_nth)
    with rfind_cases [of ?w "[32]"] obtain j where
      j: "rfind ?w [32] = int j" "j + length [32::int] \<le> length ?w"
         "take (length [32::int]) (drop j ?w) = [32]"
         "\<forall>j'. j' + length [32::int] \<le> length ?w \<and> take (length [32::int]) (drop j' ?w) = [32] \<longrightarrow> j' \<le> j"
      by blast
    from j(4) iw have ij: "nat i \<le> j" by blast
    with i have jpos: "0 < j" by simp
    from j(2) n have jb: "int j \<le> max_len" "j < length ?t" by auto
    from j(2) have jl: "j < length ?w" by simp
    then have "take (Suc 0) (drop j ?w) = [?w ! j]"
      by (simp add: take_Suc_conv_app_nth)
    with j(3) have "?w ! j = 32" by simp
    with j(2) have tj: "?t ! j = 32" by simp
    have cj: "?c = int j" using c j(1) by (simp add: Let_def)
    from tj have "isspace (?t ! Suc (j - 1))" using jpos by (simp add: isspace_32)
    with tidy_adjacent [OF tt, of "j - 1"] jpos jb(2) have nsp: "\<not> isspace (?t ! (j - 1))" by simp
    then have "strip (take j ?t) = take j ?t"
      using jpos jb(2) by (intro strip_take_word_end [OF nt]) simp_all
    moreover have "slice ?t 0 (int j) = take j ?t"
      by (simp add: slice_0_take)
    ultimately have "trim_to_word_boundary s max_len = take j ?t"
      using long None cj jpos by (simp add: trim_to_word_boundary_def Let_def)
    with jpos jb(1) tj nsp show ?thesis by blast
  qed
qed

section \<open>The extender on the empty description\<close>

lemma str_Nil: "str '''' = []"
  by (simp add: str_def)

lemma trim_to_word_boundary_Nil: "trim_to_word_boundary [] m = []"
  by (simp add: trim_to_word_boundary_def normalize_space_Nil slice_def strip_def Let_def
      split: option.splits)

lemma suffix_facts:
  "str ''Serving Detroit & Metro Detroit.'' \<noteq> []"
  "str ''Call (313) 389-6324.'' \<noteq> []"
  "str ''Serving Detroit & Metro Detroit. Call (313) 389-6324.'' \<noteq> []"
  "normalize_space (str ''Call (313) 389-6324.'') = str ''Call (313) 389-6324.''"
  "normalize_space (strip (str ''Serving Detroit & Metro Detroit.'' @ str '' '' @ str ''Call (313) 389-6324.''))
     = str ''Serving Detroit & Metro Detroit. Call (313) 389-6324.''"
  "normalize_space (strip (str '' '' @ str ''Licensed & insured.'')) = str ''Licensed & insured.''"
  "normalize_space (strip (str ''Call (313) 389-6324.'' @ str '' '' @ str ''Licensed & insured.''))
     = str ''Call (313) 389-6324. Licensed & insured.''"
  "normalize_space (strip (str ''Serving Detroit & Metro Detroit.'' @ str '' '' @ str ''Licensed & insured.''))
     = str ''Serving Detroit & Metro Detroit. Licensed & insured.''"
  "normalize_space (strip (str ''Serving Detroit & Metro Detroit. Call (313) 389-6324.'' @ str '' ''
        @ str ''Licensed & insured.''))
     = str ''Serving Detroit & Metro Detroit. Call (313) 389-6324. Licensed & insured.''"
  by code_simp+

lemma suffix_lens:
  "len (str ''Call (313) 389-6324.'') = 20"
  "len (str ''Serving Detroit & Metro Detroit. Call (313) 389-6324.'') = 53"
  "len (str ''Licensed & insured.'') = 19"
  "len (str ''Call (313) 389-6324. Licensed & insured.'') = 40"
  "len (str ''Serving Detroit & Metro Detroit. Licensed & insured.'') = 52"
  "len (str ''Serving Detroit & Metro Detroit. Call (313) 389-6324. Licensed & insured.'') = 73"
  by code_simp+

lemma extend_loop_empty:
  "extend_loop suffixes [] min_len max_len =
     (if max_len < 20 then (False, [])
      else if max_len < 32 then
        (if min_len \<le> 20 then (True, str ''Call (313) 389-6324.'')
         else (False, str ''Call (313) 389-6324.''))
      else if min_len \<le> 32 then (True, str ''Serving Detroit & Metro Detroit.'')
      else if max_len < 53 then (False, str ''Serving Detroit & Metro Detroit.'')
      else if min_len \<le> 53
        then (True, str ''Serving Detroit & Metro Detroit. Call (313) 389-6324.'')
      else (False, str ''Serving Detroit & Metro Detroit. Call (313) 389-6324.''))"
  by (simp add: suffixes_def Let_def normalize_space_first_suffix len_first_suffix
      suffix_facts suffix_lens)

lemma extend_description_empty_table:
  "extend_description [] min_len max_len =
     (if min_len \<le> 0 \<or> max_len < 19 then []
      else if max_len = 19 then str ''Licensed & insured.''
      else if max_len < 32 then str ''Call (313) 389-6324.''
      else if min_len \<le> 32 \<or> max_len < 52 then str ''Serving Detroit & Metro Detroit.''
      else if max_len = 52 then str ''Serving Detroit & Metro Detroit. Licensed & insured.''
      else if min_len \<le> 53 \<or> max_len < 73
        then str ''Serving Detroit & Metro Detroit. Call (313) 389-6324.''
      else str ''Serving Detroit & Metro Detroit. Call (313) 389-6324. Licensed & insured.'')"
proof (cases "min_len \<le> 0")
  case True
  then show ?thesis
    by (simp add: extend_description_def normalize_space_Nil trim_to_word_boundary_Nil)
      (simp add: len_def)
next
  case False
  then have "\<not> len [] \<ge> min_len" by (simp add: len_def)
  then show ?thesis using False
    by (simp add: extend_description_def normalize_space_Nil extend_loop_empty Let_def
        suffix_facts suffix_lens)
qed

lemma second_suffix_in_results:
  "\<not> contains [] (str ''Call (313) 389-6324.'')"
  "\<not> contains (str ''Licensed & insured.'') (str ''Call (313) 389-6324.'')"
  "contains (str ''Call (313) 389-6324.'') (str ''Call (313) 389-6324.'')"
  "\<not> contains (str ''Serving Detroit & Metro Detroit.'') (str ''Call (313) 389-6324.'')"
  "\<not> contains (str ''Serving Detroit & Metro Detroit. Licensed & insured.'') (str ''Call (313) 389-6324.'')"
  "contains (str ''Serving Detroit & Metro Detroit. Call (313) 389-6324.'') (str ''Call (313) 389-6324.'')"
  "contains (str ''Serving Detroit & Metro Detroit. Call (313) 389-6324. Licensed & insured.'')
     (str ''Call (313) 389-6324.'')"
  by code_simp+

lemma extend_description_empty_second_suffix:
  "contains (extend_description [] min_len max_len) (str ''Call (313) 389-6324.'')
   = (0 < min_len \<and> ((20 \<le> max_len \<and> max_len \<le> 31) \<or> (32 < min_len \<and> 53 \<le> max_len)))"
  unfolding extend_description_empty_table
  by (auto simp: second_suffix_in_results)

section \<open>No error is raised\<close>

lemma normalize_space_checked_Some: "normalize_space_checked (Some s) = Inr (normalize_space s)"
  by (simp add: normalize_space_checked_def strip_checked_def or_empty_def normalize_space_def)

lemma normalize_space_checked_None: "normalize_space_checked None = Inr (normalize_space [])"
  by (simp add: normalize_space_checked_def strip_checked_def or_empty_def normalize_space_def)

lemma str_items_Some: "str_items (map Some qs) = Inr qs"
  by (induction qs) simp_all

lemma join_checked_Some: "join_checked sep (map Some qs) = Inr (join sep qs)"
  by (simp add: join_checked_def str_items_Some)

lemma pick_parts_checked_Some:
  "pick_parts_checked (map Some cps) ds min_len max_len
   = Inr (map Some (pick_parts cps ds min_len max_len))"
proof (induction ds arbitrary: cps)
  case Nil
  then show ?case by simp
next
  case (Cons p rest)
  have ap: "map Some cps @ [Some p] = map Some (cps @ [p])" by simp
  show ?case
  proof (cases "len (join (str '' | '') (cps @ [p])) \<le> max_len")
    case True
    with Cons [of "cps @ [p]"] show ?thesis
      by (simp add: ap join_checked_Some Let_def del: map_append)
  next
    case False
    with Cons [of cps] show ?thesis
      by (simp add: ap join_checked_Some Let_def del: map_append)
  qed
qed

lemma shorten_title_checked_eq:
  "shorten_title_checked title min_len max_len = Inr (shorten_title title min_len max_len)"
proof (cases "len title > max_len")
  case False
  then show ?thesis by (simp add: shorten_title_checked_def shorten_title_def)
next
  case True
  let ?parts = "filter (\<lambda>p. p \<noteq> []) (map strip (re_split title))"
  let ?brand = "case find is_brand ?parts of
                  None \<Rightarrow> str ''Midwest Flip LLC''
                | Some p \<Rightarrow> if p = [] then str ''Midwest Flip LLC'' else p"
  have b: "(case find is_brand ?parts of
              None \<Rightarrow> Some (str ''Midwest Flip LLC'')
            | Some p \<Rightarrow> if p = [] then Some (str ''Midwest Flip LLC'') else find is_brand ?parts)
           = Some ?brand"
    by (simp split: option.splits)
  have l: "[Some ?brand] = map Some [?brand]" by simp
  show ?thesis
    using True
    unfolding shorten_title_checked_def shorten_title_def Let_def b l
      pick_parts_checked_Some
    by (simp add: join_checked_Some)
qed

lemma smart_title_checked_Some:
  "smart_title_checked (Some s) min_len max_len = Inr (smart_title s min_len max_len)"
  by (simp add: smart_title_checked_def smart_title_def normalize_space_checked_Some
      shorten_title_checked_eq Let_def)

lemma smart_title_checked_None:
  "smart_title_checked None min_len max_len = Inr (smart_title [] min_len max_len)"
  by (simp add: smart_title_checked_def smart_title_def normalize_space_checked_None
      shorten_title_checked_eq Let_def)

lemma extend_description_checked_Some:
  "extend_description_checked (Some s) min_len max_len = Inr (extend_description s min_len max_len)"
  by (simp add: extend_description_checked_def extend_description_def
      normalize_space_checked_Some Let_def split: prod.splits bool.splits)

lemma extend_description_checked_None:
  "extend_description_checked None min_len max_len = Inr (extend_description [] min_len max_len)"
  by (simp add: extend_description_checked_def extend_description_def
      normalize_space_checked_None Let_def split: prod.splits bool.splits)

lemma join_checked_None_example: "join_checked (str '' | '') [None, Some (str ''Roofing'')] = Inl TypeError"
  by (simp add: join_checked_def)

section \<open>The claims of the specification\<close>

text \<open>
  C1. For every input string and every pair of lengths \<open>min_len \<le> max_len\<close> (a length
  is not negative, so \<open>0 \<le> max_len\<close>), the title returned by \<open>_smart_title\<close> and the
  description produced by the steps of \<open>fix_file\<close> (extension, then the final trim to a
  word boundary) have at most \<open>max_len\<close> characters.
\<close>

theorem normalizer_length_at_most_max:
  assumes "0 \<le> max_len"
  shows "len (smart_title s min_len max_len) \<le> max_len
         \<and> len (fix_file_description s min_len max_len) \<le> max_len
         \<and> len (trim_to_word_boundary (extend_description s min_len max_len) max_len) \<le> max_len"
  using assms
  by (simp add: len_smart_title len_fix_file_description len_trim_to_word_boundary)

theorem normalizer_length_at_most_max_witness:
  "(0::int) \<le> 20
   \<and> len (smart_title (str ''Kitchen Remodeling Services for Metro Detroit Homes Today'') 10 20) \<le> 20
   \<and> len (fix_file_description (str ''Kitchen Remodeling Services for Metro Detroit Homes Today'') 10 20) \<le> 20
   \<and> len (trim_to_word_boundary (extend_description (str ''Kitchen Remodeling Services for Metro Detroit Homes Today'') 10 20) 20) \<le> 20"
proof -
  have h: "(0::int) \<le> 20" by simp
  from normalizer_length_at_most_max [OF h, of "str ''Kitchen Remodeling Services for Metro Detroit Homes Today''" 10]
  show ?thesis using h by blast
qed

text \<open>
  C2. When the whitespace-normalized form of the input already has a length within
  \<open>[min_len, max_len]\<close>, the title normalizer and the description steps of \<open>fix_file\<close>
  both return exactly that normalized form.
\<close>

theorem normalizer_noop_in_window:
  assumes "min_len \<le> len (normalize_space s)" and "len (normalize_space s) \<le> max_len"
  shows "smart_title s min_len max_len = normalize_space s
         \<and> fix_file_description s min_len max_len = normalize_space s"
  using assms by (simp add: smart_title_in_window fix_file_description_in_window)

theorem normalizer_noop_in_window_witness:
  "5 \<le> len (normalize_space (str ''  Roofing   and  Siding ''))
   \<and> len (normalize_space (str ''  Roofing   and  Siding '')) \<le> 20
   \<and> smart_title (str ''  Roofing   and  Siding '') 5 20 = normalize_space (str ''  Roofing   and  Siding '')
   \<and> fix_file_description (str ''  Roofing   and  Siding '') 5 20 = normalize_space (str ''  Roofing   and  Siding '')"
proof -
  have h1: "5 \<le> len (normalize_space (str ''  Roofing   and  Siding ''))" by code_simp
  have h2: "len (normalize_space (str ''  Roofing   and  Siding '')) \<le> 20" by code_simp
  from normalizer_noop_in_window [OF h1 h2] h1 h2 show ?thesis by blast
qed

text \<open>
  C3, as stated: applying the normalizer twice gives the same result as applying it once,
  for every string and every window. This fails: for the empty title and the window
  \<open>[50, 60]\<close> the first application returns \<open>Midwest Flip LLC | Detroit\<close> (26 characters,
  the fallback title of 42 characters does not reach 50), and the second application
  extends that to \<open>Midwest Flip LLC | Detroit | Michigan\<close>. Likewise the description steps
  of \<open>fix_file\<close> on the empty description with the window \<open>[100, 160]\<close> give 73 characters
  at first and 106 when applied again.
\<close>

theorem smart_title_not_idempotent:
  "smart_title (str '''') 50 60 = str ''Midwest Flip LLC | Detroit''
   \<and> smart_title (smart_title (str '''') 50 60) 50 60 = str ''Midwest Flip LLC | Detroit | Michigan''
   \<and> smart_title (smart_title (str '''') 50 60) 50 60 \<noteq> smart_title (str '''') 50 60
   \<and> len (fix_file_description (str '''') 100 160) = 73
   \<and> len (fix_file_description (fix_file_description (str '''') 100 160) 100 160) = 106
   \<and> fix_file_description (fix_file_description (str '''') 100 160) 100 160
       \<noteq> fix_file_description (str '''') 100 160"
  by code_simp

text \<open>
  C3, amended: applying the normalizer to its own result changes nothing whenever that
  result has a length within \<open>[min_len, max_len]\<close>, for titles and for descriptions. For
  titles this is the case for every input as soon as the fallback title (42 characters)
  fits the window, \<open>min_len \<le> 42 \<le> max_len\<close>, as the default window \<open>[30, 60]\<close> does.
\<close>

theorem normalizer_idempotent_when_in_window:
  "(min_len \<le> len (smart_title s min_len max_len) \<and> len (smart_title s min_len max_len) \<le> max_len
      \<longrightarrow> smart_title (smart_title s min_len max_len) min_len max_len = smart_title s min_len max_len)
   \<and> (min_len \<le> len (fix_file_description s min_len max_len)
        \<and> len (fix_file_description s min_len max_len) \<le> max_len
      \<longrightarrow> fix_file_description (fix_file_description s min_len max_len) min_len max_len
          = fix_file_description s min_len max_len)
   \<and> (min_len \<le> 42 \<and> 42 \<le> max_len
      \<longrightarrow> smart_title (smart_title s min_len max_len) min_len max_len = smart_title s min_len max_len)"
proof (intro conjI impI)
  assume "min_len \<le> len (smart_title s min_len max_len) \<and> len (smart_title s min_len max_len) \<le> max_len"
  then show "smart_title (smart_title s min_len max_len) min_len max_len = smart_title s min_len max_len"
    by (simp add: smart_title_idem_in_window)
next
  assume "min_len \<le> len (fix_file_description s min_len max_len)
          \<and> len (fix_file_description s min_len max_len) \<le> max_len"
  then show "fix_file_description (fix_file_description s min_len max_len) min_len max_len
             = fix_file_description s min_len max_len"
    by (simp add: fix_file_description_idem_in_window)
next
  assume "min_len \<le> 42 \<and> 42 \<le> max_len"
  then have "min_len \<le> len (smart_title s min_len max_len) \<and> len (smart_title s min_len max_len) \<le> max_len"
    by (simp add: smart_title_reaches_fallback_window)
  then show "smart_title (smart_title s min_len max_len) min_len max_len = smart_title s min_len max_len"
    by (simp add: smart_title_idem_in_window)
qed

theorem normalizer_idempotent_when_in_window_witness:
  "30 \<le> len (smart_title (str ''Roofing'') 30 60) \<and> len (smart_title (str ''Roofing'') 30 60) \<le> 60
   \<and> (30::int) \<le> 42 \<and> (42::int) \<le> 60
   \<and> smart_title (smart_title (str ''Roofing'') 30 60) 30 60 = smart_title (str ''Roofing'') 30 60
   \<and> 70 \<le> len (fix_file_description (str ''We fix roofs.'') 70 160)
   \<and> len (fix_file_description (str ''We fix roofs.'') 70 160) \<le> 160
   \<and> fix_file_description (fix_file_description (str ''We fix roofs.'') 70 160) 70 160
       = fix_file_description (str ''We fix roofs.'') 70 160"
proof -
  have t: "30 \<le> len (smart_title (str ''Roofing'') 30 60) \<and> len (smart_title (str ''Roofing'') 30 60) \<le> 60"
    by code_simp
  have d: "70 \<le> len (fix_file_description (str ''We fix roofs.'') 70 160)
           \<and> len (fix_file_description (str ''We fix roofs.'') 70 160) \<le> 160"
    by code_simp
  have w: "(30::int) \<le> 42 \<and> (42::int) \<le> 60" by simp
  from normalizer_idempotent_when_in_window [of 30 "str ''Roofing''" 60]
       normalizer_idempotent_when_in_window [of 70 "str ''We fix roofs.''" 160] t d w
  show ?thesis by blast
qed

text \<open>
  C4. Truncation never splits a word when a word boundary is in range: if the normalized
  text is longer than \<open>max_len\<close> and has a space at some index in \<open>[1, max_len]\<close>, then
  \<open>_trim_to_word_boundary\<close> returns a prefix of \<open>k \<le> max_len\<close> characters of the
  normalized text, the character after the prefix is a space and the last character of
  the prefix is not whitespace (the cut is at the end of a word or of a sentence). In
  particular, for \<open>Kitchen Remodeling Services for Metro Detroit Homes Today\<close> and the
  window \<open>[10, 20]\<close>, \<open>_smart_title\<close> returns the whole brand \<open>Midwest Flip LLC\<close>
  (the title is replaced by the brand before any trimming), 16 characters that end with
  a complete word, and trimming that title itself to 20 gives \<open>Kitchen Remodeling\<close>.
\<close>

theorem truncation_at_word_boundary:
  assumes "max_len < len (normalize_space s)"
    and "1 \<le> i" and "i \<le> max_len" and "normalize_space s ! nat i = 32"
  shows "(\<exists>k. 0 < k \<and> int k \<le> max_len
              \<and> trim_to_word_boundary s max_len = take k (normalize_space s)
              \<and> normalize_space s ! k = 32
              \<and> \<not> isspace (normalize_space s ! (k - 1)))
         \<and> smart_title (str ''Kitchen Remodeling Services for Metro Detroit Homes Today'') 10 20
             = str ''Midwest Flip LLC''
         \<and> len (smart_title (str ''Kitchen Remodeling Services for Metro Detroit Homes Today'') 10 20) \<le> 20
         \<and> trim_to_word_boundary (str ''Kitchen Remodeling Services for Metro Detroit Homes Today'') 20
             = str ''Kitchen Remodeling''"
proof -
  have "smart_title (str ''Kitchen Remodeling Services for Metro Detroit Homes Today'') 10 20
          = str ''Midwest Flip LLC''"
    by code_simp
  moreover have "len (smart_title (str ''Kitchen Remodeling Services for Metro Detroit Homes Today'') 10 20) \<le> 20"
    by code_simp
  moreover have "trim_to_word_boundary (str ''Kitchen Remodeling Services for Metro Detroit Homes Today'') 20
          = str ''Kitchen Remodeling''"
    by code_simp
  ultimately show ?thesis
    using trim_at_boundary [OF assms] by blast
qed

theorem truncation_at_word_boundary_witness:
  "20 < len (normalize_space (str ''Kitchen Remodeling Services for Metro Detroit Homes Today''))
   \<and> (1::int) \<le> 7 \<and> (7::int) \<le> 20
   \<and> normalize_space (str ''Kitchen Remodeling Services for Metro Detroit Homes Today'') ! nat 7 = 32
   \<and> (\<exists>k. 0 < k \<and> int k \<le> 20
         \<and> trim_to_word_boundary (str ''Kitchen Remodeling Services for Metro Detroit Homes Today'') 20
             = take k (normalize_space (str ''Kitchen Remodeling Services for Metro Detroit Homes Today''))
         \<and> normalize_space (str ''Kitchen Remodeling Services for Metro Detroit Homes Today'') ! k = 32
         \<and> \<not> isspace (normalize_space (str ''Kitchen Remodeling Services for Metro Detroit Homes Today'') ! (k - 1)))"
proof -
  have h1: "20 < len (normalize_space (str ''Kitchen Remodeling Services for Metro Detroit Homes Today''))"
    by code_simp
  have h2: "(1::int) \<le> 7" and h3: "(7::int) \<le> 20" by simp_all
  have h4: "normalize_space (str ''Kitchen Remodeling Services for Metro Detroit Homes Today'') ! nat 7 = 32"
    by code_simp
  from truncation_at_word_boundary [OF h1 h2 h3 h4] h1 h2 h3 h4 show ?thesis by blast
qed

text \<open>
  C5, as stated: for the empty input the description extender appends no suffix beyond
  the first. This fails: with the default window \<open>[70, 160]\<close> the first suffix alone has
  32 characters, so the loop goes on to the second suffix and then to the padding phrase.
\<close>

theorem extend_description_empty_goes_on:
  "extend_description (str '''') 70 160
     = str ''Serving Detroit & Metro Detroit. Call (313) 389-6324. Licensed & insured.''
   \<and> contains (extend_description (str '''') 70 160) (str ''Call (313) 389-6324.'')"
  by code_simp

text \<open>
  C5, amended: for the empty input the result of the description extender contains a
  suffix of the list beyond the first, that is the second suffix, exactly when
  \<open>min_len > 0\<close> and either \<open>20 \<le> max_len \<le> 31\<close> (the first suffix does not fit, the
  second does) or \<open>min_len > 32\<close> and \<open>max_len \<ge> 53\<close> (the first suffix is too short and
  both fit); for every other window nothing of the list is appended beyond the first
  suffix. In full the result is: empty if \<open>min_len \<le> 0\<close> or \<open>max_len < 19\<close>; the padding
  phrase if \<open>max_len = 19\<close>; the second suffix alone if \<open>20 \<le> max_len \<le> 31\<close>; the first
  suffix alone if \<open>max_len \<ge> 32\<close> and (\<open>min_len \<le> 32\<close> or \<open>max_len < 52\<close>); the first suffix
  and the padding phrase if \<open>max_len = 52\<close>; both suffixes if \<open>max_len \<ge> 53\<close> and
  (\<open>min_len \<le> 53\<close> or \<open>max_len < 73\<close>); both suffixes and the padding phrase otherwise.
\<close>

theorem extend_description_empty_result:
  "extend_description (str '''') min_len max_len =
     (if min_len \<le> 0 \<or> max_len < 19 then str ''''
      else if max_len = 19 then str ''Licensed & insured.''
      else if max_len < 32 then suffixes ! 1
      else if min_len \<le> 32 \<or> max_len < 52 then suffixes ! 0
      else if max_len = 52 then str ''Serving Detroit & Metro Detroit. Licensed & insured.''
      else if min_len \<le> 53 \<or> max_len < 73
        then str ''Serving Detroit & Metro Detroit. Call (313) 389-6324.''
      else str ''Serving Detroit & Metro Detroit. Call (313) 389-6324. Licensed & insured.'')
   \<and> contains (extend_description (str '''') min_len max_len) (suffixes ! 1)
       = (0 < min_len \<and> ((20 \<le> max_len \<and> max_len \<le> 31) \<or> (32 < min_len \<and> 53 \<le> max_len)))"
proof -
  have s: "suffixes ! 0 = str ''Serving Detroit & Metro Detroit.''"
    "suffixes ! 1 = str ''Call (313) 389-6324.''"
    by (simp_all add: suffixes_def)
  show ?thesis
    unfolding s str_Nil
    using extend_description_empty_table [of min_len max_len]
      extend_description_empty_second_suffix [of min_len max_len]
    by simp
qed

theorem extend_description_empty_result_witness:
  "extend_description (str '''') 30 60 = suffixes ! 0
   \<and> \<not> contains (extend_description (str '''') 30 60) (suffixes ! 1)
   \<and> extend_description (str '''') 40 50 = suffixes ! 0
   \<and> extend_description (str '''') 10 25 = suffixes ! 1
   \<and> contains (extend_description (str '''') 70 160) (suffixes ! 1)"
proof -
  note at_30_60 = extend_description_empty_result [of 30 60]
  from at_30_60 [THEN conjunct1]
  have a: "extend_description (str '''') 30 60 = suffixes ! 0" by simp
  from at_30_60 [THEN conjunct2]
  have a': "\<not> contains (extend_description (str '''') 30 60) (suffixes ! 1)" by simp
  from extend_description_empty_result [of 40 50, THEN conjunct1]
  have b: "extend_description (str '''') 40 50 = suffixes ! 0" by simp
  from extend_description_empty_result [of 10 25, THEN conjunct1]
  have c: "extend_description (str '''') 10 25 = suffixes ! 1" by simp
  from extend_description_empty_result [of 70 160, THEN conjunct2]
  have d: "contains (extend_description (str '''') 70 160) (suffixes ! 1)" by simp
  from a a' b c d show ?thesis by blast
qed

text \<open>
  C6. \<open>_smart_title\<close> and \<open>_extend_description\<close> return a string and raise no exception,
  for every input string (the empty string included) and every pair of integers
  \<open>min_len\<close>, \<open>max_len\<close>: the functions with the run-time errors of Python made explicit
  never take an error branch and return the result of the functions above. The same holds
  when the input is \<^verbatim>\<open>None\<close>, which is treated as the empty string.
\<close>

theorem normalizer_never_raises:
  "smart_title_checked (Some s) min_len max_len = Inr (smart_title s min_len max_len)
   \<and> extend_description_checked (Some s) min_len max_len
       = Inr (extend_description s min_len max_len)
   \<and> smart_title_checked None min_len max_len = Inr (smart_title (str '''') min_len max_len)
   \<and> extend_description_checked None min_len max_len
       = Inr (extend_description (str '''') min_len max_len)"
  by (simp add: smart_title_checked_Some extend_description_checked_Some
      smart_title_checked_None extend_description_checked_None str_Nil)

text \<open>
  C7. For the empty title and the window \<open>[30, 60]\<close> the result is the fallback title: it
  is not empty and has at most 60 characters.
\<close>

theorem smart_title_empty_default:
  "smart_title (str '''') 30 60 = str ''Midwest Flip LLC | Detroit Home Remodeling''
   \<and> smart_title (str '''') 30 60 \<noteq> str ''''
   \<and> len (smart_title (str '''') 30 60) \<le> 60"
  by code_simp

text \<open>
  C8. \<open>_smart_title("Roofing", 30, 60)\<close> has between 30 and 60 characters and contains the
  brand qualifier \<open>Midwest Flip LLC\<close>.
\<close>

theorem smart_title_roofing:
  "smart_title (str ''Roofing'') 30 60 = str ''Roofing | Midwest Flip LLC | Detroit''
   \<and> 30 \<le> len (smart_title (str ''Roofing'') 30 60)
   \<and> len (smart_title (str ''Roofing'') 30 60) \<le> 60
   \<and> contains (smart_title (str ''Roofing'') 30 60) (str ''Midwest Flip LLC'')"
  by code_simp

text \<open>
  C9. \<open>_extend_description("We fix roofs.", 70, 160)\<close> is the input followed by suffixes of
  the fixed list (here both, and the padding phrase), and its length lies in \<open>[70, 160]\<close>.
\<close>

theorem extend_description_we_fix_roofs:
  "extend_description (str ''We fix roofs.'') 70 160
     = str ''We fix roofs.'' @ str '' '' @ suffixes ! 0 @ str '' '' @ suffixes ! 1
       @ str '' Licensed & insured.''
   \<and> list_ex (contains (extend_description (str ''We fix roofs.'') 70 160)) suffixes
   \<and> 70 \<le> len (extend_description (str ''We fix roofs.'') 70 160)
   \<and> len (extend_description (str ''We fix roofs.'') 70 160) \<le> 160"
  by code_simp

text \<open>
  C10. Every string returned by \<open>_smart_title\<close>, \<open>_extend_description\<close> and
  \<open>_trim_to_word_boundary\<close> is whitespace-normalized: it is a fixed point of
  \<open>_normalize_space\<close>, has no whitespace at either end and no two adjacent whitespace
  characters.
\<close>

theorem results_whitespace_normalized:
  "whitespace_normalized (smart_title s min_len max_len)
   \<and> whitespace_normalized (extend_description s min_len max_len)
   \<and> whitespace_normalized (trim_to_word_boundary s max_len)"
  by (simp add: normal_whitespace_normalized normal_smart_title normal_extend_description
      normal_trim_to_word_boundary)

end
